theory Spec2Isabelle
  imports Complex_Main
begin

section \<open>The Comtrade download orchestrator\<close>

text \<open>
  A shallow embedding of \<^verbatim>\<open>code/04_download_comtrade.py\<close> and
  \<^verbatim>\<open>code/05_download_comtrade.py\<close>. The HTTP service is a parameter (a stub):
  a function of the requests sent so far and of the request being sent. Every effect
  of the program is recorded, in order, in a trace carried by the state next to the
  module's global \<^verbatim>\<open>call_counter\<close>. A run that never returns (the service
  answers 429 for ever) has the value \<open>None\<close>.
\<close>

subsection \<open>Data\<close>

text \<open>A row of the \<^verbatim>\<open>data\<close> array: column names and cells, in column order.\<close>

type_synonym row = "(string \<times> string) list"

text \<open>
  A \<^verbatim>\<open>DataFrame\<close>, seen as the sequence of its rows; \<^verbatim>\<open>len(df)\<close> is its length.
  How pandas aligns columns is not part of the model.
\<close>

type_synonym table = "row list"

text \<open>
  The arguments of \<^verbatim>\<open>requests.get\<close>: the key of the header and the five parameters.
  The source sends \<^verbatim>\<open>str(year)\<close> as the period; the model keeps the year.
\<close>

record request =
  subscription_key :: string
  reporterCode :: string
  period :: int
  partnerCode :: string
  flowCode :: string
  cmdCode :: string

text \<open>
  What \<^verbatim>\<open>response.json()\<close> gives: it raises (\<open>Unparseable\<close>), or it is an object
  whose \<^verbatim>\<open>data\<close> field is missing (\<open>Json None\<close>) or holds an array of rows.
\<close>

datatype payload = Unparseable | Json "table option"

text \<open>
  What \<^verbatim>\<open>requests.get\<close> does: it returns a response with a status code, or it
  raises (no connection, or the 60 second timeout).
\<close>

datatype http_result = Response int payload | Raises

type_synonym http_stub = "request list \<Rightarrow> request \<Rightarrow> http_result"

text \<open>
  The effects, as they happen. Sleeps are in seconds. A printed line is its text and the
  values interpolated into it; the clock is not modelled, so the lines that show a time
  carry none. A file is named relative to \<^verbatim>\<open>OUTPUT_DIR\<close>.
\<close>

datatype event =
    HttpGet request http_result
  | Sleep rat
  | ToCsv string table
  | Print string "int list"

record world =
  call_counter :: int
  trace :: "event list"

datatype py_error = KeyError

text \<open>How \<^verbatim>\<open>main\<close> ends early: \<^verbatim>\<open>sys.exit\<close> with a status, or an exception nobody catches.\<close>

datatype exit = SysExit int | Uncaught py_error

subsection \<open>Configuration\<close>

definition API_KEY :: string where
  "API_KEY = ''9889968aef8743358f4bca61dd62af53''"

definition COUNTRIES :: "string \<rightharpoonup> string" where
  "COUNTRIES = [
     ''Colombia'' \<mapsto> ''170'',
     ''China'' \<mapsto> ''156'',
     ''World'' \<mapsto> ''0'',
     ''Chile'' \<mapsto> ''152'',
     ''Peru'' \<mapsto> ''604'',
     ''Brazil'' \<mapsto> ''076'',
     ''Argentina'' \<mapsto> ''032'',
     ''Ecuador'' \<mapsto> ''218'']"

definition max_calls :: int where
  "max_calls = 500"

definition initial_world :: world where
  "initial_world = \<lparr>call_counter = 0, trace = []\<rparr>"

subsection \<open>Primitives\<close>

fun sent :: "event list \<Rightarrow> request list" where
  "sent [] = []"
| "sent (HttpGet rq res # es) = rq # sent es"
| "sent (e # es) = sent es"

definition requests_get :: "http_stub \<Rightarrow> request \<Rightarrow> world \<Rightarrow> http_result \<times> world" where
  "requests_get srv rq w =
     (let res = srv (sent (trace w)) rq
      in (res, w\<lparr>trace := trace w @ [HttpGet rq res]\<rparr>))"

definition time_sleep :: "rat \<Rightarrow> world \<Rightarrow> world" where
  "time_sleep secs w = w\<lparr>trace := trace w @ [Sleep secs]\<rparr>"

definition to_csv :: "table \<Rightarrow> string \<Rightarrow> world \<Rightarrow> world" where
  "to_csv df name w = w\<lparr>trace := trace w @ [ToCsv name df]\<rparr>"

definition print :: "string \<Rightarrow> int list \<Rightarrow> world \<Rightarrow> world" where
  "print line vals w = w\<lparr>trace := trace w @ [Print line vals]\<rparr>"

text \<open>\<^verbatim>\<open>pd.concat(frames, ignore_index=True)\<close>: the rows of the frames, in order.\<close>

definition pd_concat :: "table list \<Rightarrow> table" where
  "pd_concat frames = concat frames"

text \<open>\<^verbatim>\<open>df[column] = value\<close>: the cell is replaced where the column exists, added last otherwise.\<close>

fun set_cell :: "string \<Rightarrow> string \<Rightarrow> row \<Rightarrow> row" where
  "set_cell column v [] = [(column, v)]"
| "set_cell column v ((c, x) # r) =
     (if c = column then (c, v) # r else (c, x) # set_cell column v r)"

definition set_column :: "string \<Rightarrow> string \<Rightarrow> table \<Rightarrow> table" where
  "set_column column v df = map (set_cell column v) df"

text \<open>The test \<^verbatim>\<open>call_counter >= max_calls - 50\<close>, written three times in each file.\<close>

definition near_limit :: "world \<Rightarrow> bool" where
  "near_limit w = (call_counter w \<ge> max_calls - 50)"

subsection \<open>\<^verbatim>\<open>download_year\<close>\<close>

text \<open>
  The counter is incremented after \<^verbatim>\<open>requests.get\<close> has returned, inside the
  \<^verbatim>\<open>try\<close>: when \<^verbatim>\<open>requests.get\<close> raises, the bare \<^verbatim>\<open>except\<close> is entered
  with the counter as it was. A \<^verbatim>\<open>json()\<close> that raises comes after the increment.
  The interpreter's recursion limit is not modelled.
\<close>

partial_function (option) download_year ::
  "http_stub \<Rightarrow> string \<Rightarrow> string \<Rightarrow> string \<Rightarrow> int \<Rightarrow> string \<Rightarrow> string \<Rightarrow> world
     \<Rightarrow> (table option \<times> world) option"
where
  "download_year srv api_key reporter partner year flow cmd_code w =
     (let params = \<lparr>subscription_key = api_key, reporterCode = reporter, period = year,
                     partnerCode = partner, flowCode = flow, cmdCode = cmd_code\<rparr>
      in case requests_get srv params w of
           (Raises, w1) \<Rightarrow> Some (None, w1)
         | (Response status_code body, w1) \<Rightarrow>
             (let w2 = w1\<lparr>call_counter := call_counter w1 + 1\<rparr>
              in if status_code = 200 then
                   (case body of
                      Unparseable \<Rightarrow> Some (None, w2)
                    | Json None \<Rightarrow> Some (None, w2)
                    | Json (Some data) \<Rightarrow>
                        if length data > 0 then Some (Some data, w2) else Some (None, w2))
                 else if status_code = 429 then
                   download_year srv api_key reporter partner year flow cmd_code
                     (time_sleep 60 w2)
                 else Some (None, w2)))"

declare download_year.simps [code]

subsection \<open>\<^verbatim>\<open>download_dataset\<close>\<close>

text \<open>The body of the \<^verbatim>\<open>for\<close> loop, over the years still to visit.\<close>

fun dataset_loop ::
  "http_stub \<Rightarrow> string \<Rightarrow> string \<Rightarrow> string \<Rightarrow> string \<Rightarrow> string \<Rightarrow> int list \<Rightarrow> table list
     \<Rightarrow> world \<Rightarrow> (table list \<times> world) option"
where
  "dataset_loop srv api_key reporter partner flow cmd_code [] all_data w = Some (all_data, w)"
| "dataset_loop srv api_key reporter partner flow cmd_code (year # years) all_data w =
     (case download_year srv api_key reporter partner year flow cmd_code w of
        None \<Rightarrow> None
      | Some (df, w1) \<Rightarrow>
          (let all_data1 = (case df of Some d \<Rightarrow> all_data @ [d] | None \<Rightarrow> all_data);
               w2 = time_sleep (3 / 2) w1
           in if near_limit w2 then Some (all_data1, w2)
              else dataset_loop srv api_key reporter partner flow cmd_code years all_data1 w2))"

definition download_dataset ::
  "http_stub \<Rightarrow> string \<Rightarrow> string \<Rightarrow> string \<Rightarrow> int \<Rightarrow> int \<Rightarrow> string \<Rightarrow> string \<Rightarrow> world
     \<Rightarrow> (table option \<times> world) option"
where
  "download_dataset srv api_key reporter partner start_year end_year flow cmd_code w =
     (case dataset_loop srv api_key reporter partner flow cmd_code [start_year..end_year] [] w of
        None \<Rightarrow> None
      | Some (all_data, w1) \<Rightarrow>
          Some (if all_data \<noteq> [] then Some (pd_concat all_data) else None, w1))"

subsection \<open>\<^verbatim>\<open>main\<close> of \<^verbatim>\<open>04_download_comtrade.py\<close>\<close>

text \<open>
  A step of \<^verbatim>\<open>main\<close> returns \<open>None\<close> when control goes on to the next statement,
  and \<open>Some e\<close> when the process ends there. \<open>and_then\<close> is the semicolon.
\<close>

type_synonym step = "(exit option \<times> world) option"

definition and_then :: "step \<Rightarrow> (world \<Rightarrow> step) \<Rightarrow> step" where
  "and_then m k =
     (case m of
        None \<Rightarrow> None
      | Some (Some e, w) \<Rightarrow> Some (Some e, w)
      | Some (None, w) \<Rightarrow> k w)"

text \<open>The block \<^verbatim>\<open>if df is not None: df.to_csv(...); print(...)\<close>.\<close>

definition save_and_report :: "table option \<Rightarrow> string \<Rightarrow> world \<Rightarrow> world" where
  "save_and_report df name w =
     (case df of
        None \<Rightarrow> w
      | Some d \<Rightarrow>
          (let w1 = to_csv d name w
           in print ''  Records: {len(df):,} | Calls: {call_counter}''
                [int (length d), call_counter w1] w1))"

definition download_1 :: "http_stub \<Rightarrow> world \<Rightarrow> step" where
  "download_1 srv w0 =
     (let w = print ''[1/4] Colombia imports from China (HS6)...'' [] w0
      in case (COUNTRIES ''Colombia'', COUNTRIES ''China'') of
           (Some reporter, Some partner) \<Rightarrow>
             (case download_dataset srv API_KEY reporter partner 1992 2023 ''M'' ''AG6'' w of
                None \<Rightarrow> None
              | Some (df, w1) \<Rightarrow>
                  Some (None, save_and_report df ''colombia_imports_from_china_HS6.csv'' w1))
         | _ \<Rightarrow> Some (Some (Uncaught KeyError), w))"

definition download_2 :: "http_stub \<Rightarrow> world \<Rightarrow> step" where
  "download_2 srv w0 =
     (let w = print ''[2/4] Colombia imports from World (HS6)...'' [] w0
      in case (COUNTRIES ''Colombia'', COUNTRIES ''World'') of
           (Some reporter, Some partner) \<Rightarrow>
             (case download_dataset srv API_KEY reporter partner 1992 2023 ''M'' ''AG6'' w of
                None \<Rightarrow> None
              | Some (df, w1) \<Rightarrow>
                  Some (None, save_and_report df ''colombia_imports_from_world_HS6.csv'' w1))
         | _ \<Rightarrow> Some (Some (Uncaught KeyError), w))"

definition download_3 :: "http_stub \<Rightarrow> world \<Rightarrow> step" where
  "download_3 srv w0 =
     (let w = print ''[3/4] Colombia exports to World (HS6)...'' [] w0
      in case (COUNTRIES ''Colombia'', COUNTRIES ''World'') of
           (Some reporter, Some partner) \<Rightarrow>
             (case download_dataset srv API_KEY reporter partner 1992 2023 ''X'' ''AG6'' w of
                None \<Rightarrow> None
              | Some (df, w1) \<Rightarrow>
                  Some (None, save_and_report df ''colombia_exports_to_world_HS6.csv'' w1))
         | _ \<Rightarrow> Some (Some (Uncaught KeyError), w))"

text \<open>
  The loop over the partners of China. A name that is not a key of \<^verbatim>\<open>COUNTRIES\<close>
  raises \<^verbatim>\<open>KeyError\<close> before the call.
\<close>

fun lac_loop ::
  "http_stub \<Rightarrow> string list \<Rightarrow> table list \<Rightarrow> world \<Rightarrow> ((py_error + table list) \<times> world) option"
where
  "lac_loop srv [] lac_data w = Some (Inr lac_data, w)"
| "lac_loop srv (country_name # names) lac_data w =
     (case (COUNTRIES ''China'', COUNTRIES country_name) of
        (Some reporter, Some partner) \<Rightarrow>
          (case download_dataset srv API_KEY reporter partner 1992 2023 ''X'' ''AG6'' w of
             None \<Rightarrow> None
           | Some (df, w1) \<Rightarrow>
               (let lac_data1 =
                      (case df of
                         Some d \<Rightarrow> lac_data @ [set_column ''partner_country'' country_name d]
                       | None \<Rightarrow> lac_data)
                in lac_loop srv names lac_data1 (time_sleep 2 w1)))
      | _ \<Rightarrow> Some (Inl KeyError, w))"

definition download_4 :: "http_stub \<Rightarrow> world \<Rightarrow> step" where
  "download_4 srv w0 =
     (let w = print ''[4/4] China exports to LAC countries (HS6)...'' [] w0
      in case lac_loop srv [''Chile'', ''Peru'', ''Brazil'', ''Argentina'', ''Ecuador''] [] w of
           None \<Rightarrow> None
         | Some (Inl e, w1) \<Rightarrow> Some (Some (Uncaught e), w1)
         | Some (Inr lac_data, w1) \<Rightarrow>
             Some (None,
               if lac_data \<noteq> [] then
                 (let df_lac = pd_concat lac_data;
                      w2 = to_csv df_lac ''china_exports_to_lac_HS6.csv'' w1
                  in print ''  Records: {len(df_lac):,} | Calls: {call_counter}''
                       [int (length df_lac), call_counter w2] w2)
               else w1))"

definition report_end :: "world \<Rightarrow> world" where
  "report_end w =
     print ''Output: {OUTPUT_DIR}'' []
       (print ''Duration: {duration:.1f} minutes'' []
          (print ''Total API calls: {call_counter}/{max_calls}'' [call_counter w, max_calls]
             (print ''Download complete: {end_time}'' [] w)))"

definition main :: "http_stub \<Rightarrow> world \<Rightarrow> step" where
  "main srv w0 =
     and_then (download_1 srv (print ''Comtrade download started: {start_time}'' [] w0)) (\<lambda>w1.
     and_then (download_2 srv w1) (\<lambda>w2.
       if near_limit w2 then
         Some (Some (SysExit 0),
               print ''Approaching daily limit. Exports pending for tomorrow.'' [] w2)
       else
         and_then (download_3 srv w2) (\<lambda>w3.
         and_then (download_4 srv w3) (\<lambda>w4.
           Some (None, report_end w4)))))"

section \<open>The second entry point, \<^verbatim>\<open>05_download_comtrade.py\<close>\<close>

text \<open>
  The file defines its own \<^verbatim>\<open>download_year\<close>, \<^verbatim>\<open>download_dataset\<close> and
  \<^verbatim>\<open>main\<close>; they are embedded from its text, under the names of the first file
  with the suffix \<open>_05\<close>.
\<close>

partial_function (option) download_year_05 ::
  "http_stub \<Rightarrow> string \<Rightarrow> string \<Rightarrow> string \<Rightarrow> int \<Rightarrow> string \<Rightarrow> string \<Rightarrow> world
     \<Rightarrow> (table option \<times> world) option"
where
  "download_year_05 srv api_key reporter partner year flow cmd_code w =
     (let params = \<lparr>subscription_key = api_key, reporterCode = reporter, period = year,
                     partnerCode = partner, flowCode = flow, cmdCode = cmd_code\<rparr>
      in case requests_get srv params w of
           (Raises, w1) \<Rightarrow> Some (None, w1)
         | (Response status_code body, w1) \<Rightarrow>
             (let w2 = w1\<lparr>call_counter := call_counter w1 + 1\<rparr>
              in if status_code = 200 then
                   (case body of
                      Unparseable \<Rightarrow> Some (None, w2)
                    | Json None \<Rightarrow> Some (None, w2)
                    | Json (Some data) \<Rightarrow>
                        if length data > 0 then Some (Some data, w2) else Some (None, w2))
                 else if status_code = 429 then
                   download_year_05 srv api_key reporter partner year flow cmd_code
                     (time_sleep 60 w2)
                 else Some (None, w2)))"

declare download_year_05.simps [code]

fun dataset_loop_05 ::
  "http_stub \<Rightarrow> string \<Rightarrow> string \<Rightarrow> string \<Rightarrow> string \<Rightarrow> string \<Rightarrow> int list \<Rightarrow> table list
     \<Rightarrow> world \<Rightarrow> (table list \<times> world) option"
where
  "dataset_loop_05 srv api_key reporter partner flow cmd_code [] all_data w = Some (all_data, w)"
| "dataset_loop_05 srv api_key reporter partner flow cmd_code (year # years) all_data w =
     (case download_year_05 srv api_key reporter partner year flow cmd_code w of
        None \<Rightarrow> None
      | Some (df, w1) \<Rightarrow>
          (let all_data1 = (case df of Some d \<Rightarrow> all_data @ [d] | None \<Rightarrow> all_data);
               w2 = time_sleep (3 / 2) w1
           in if near_limit w2 then Some (all_data1, w2)
              else dataset_loop_05 srv api_key reporter partner flow cmd_code years all_data1 w2))"

definition download_dataset_05 ::
  "http_stub \<Rightarrow> string \<Rightarrow> string \<Rightarrow> string \<Rightarrow> int \<Rightarrow> int \<Rightarrow> string \<Rightarrow> string \<Rightarrow> world
     \<Rightarrow> (table option \<times> world) option"
where
  "download_dataset_05 srv api_key reporter partner start_year end_year flow cmd_code w =
     (case dataset_loop_05 srv api_key reporter partner flow cmd_code
             [start_year..end_year] [] w of
        None \<Rightarrow> None
      | Some (all_data, w1) \<Rightarrow>
          Some (if all_data \<noteq> [] then Some (pd_concat all_data) else None, w1))"

text \<open>The block \<^verbatim>\<open>if df is not None: df.to_csv(...)\<close>.\<close>

definition save_05 :: "table option \<Rightarrow> string \<Rightarrow> world \<Rightarrow> world" where
  "save_05 df name w = (case df of None \<Rightarrow> w | Some d \<Rightarrow> to_csv d name w)"

definition download_1_05 :: "http_stub \<Rightarrow> world \<Rightarrow> step" where
  "download_1_05 srv w =
     (case (COUNTRIES ''Colombia'', COUNTRIES ''China'') of
        (Some reporter, Some partner) \<Rightarrow>
          (case download_dataset_05 srv API_KEY reporter partner 1992 2023 ''M'' ''AG6'' w of
             None \<Rightarrow> None
           | Some (df, w1) \<Rightarrow>
               Some (None, save_05 df ''colombia_imports_from_china_HS6.csv'' w1))
      | _ \<Rightarrow> Some (Some (Uncaught KeyError), w))"

definition download_2_05 :: "http_stub \<Rightarrow> world \<Rightarrow> step" where
  "download_2_05 srv w =
     (case (COUNTRIES ''Colombia'', COUNTRIES ''World'') of
        (Some reporter, Some partner) \<Rightarrow>
          (case download_dataset_05 srv API_KEY reporter partner 1992 2023 ''M'' ''AG6'' w of
             None \<Rightarrow> None
           | Some (df, w1) \<Rightarrow>
               Some (None, save_05 df ''colombia_imports_from_world_HS6.csv'' w1))
      | _ \<Rightarrow> Some (Some (Uncaught KeyError), w))"

definition download_3_05 :: "http_stub \<Rightarrow> world \<Rightarrow> step" where
  "download_3_05 srv w =
     (case (COUNTRIES ''Colombia'', COUNTRIES ''World'') of
        (Some reporter, Some partner) \<Rightarrow>
          (case download_dataset_05 srv API_KEY reporter partner 1992 2023 ''X'' ''AG6'' w of
             None \<Rightarrow> None
           | Some (df, w1) \<Rightarrow>
               Some (None, save_05 df ''colombia_exports_to_world_HS6.csv'' w1))
      | _ \<Rightarrow> Some (Some (Uncaught KeyError), w))"

fun lac_loop_05 ::
  "http_stub \<Rightarrow> string list \<Rightarrow> table list \<Rightarrow> world \<Rightarrow> ((py_error + table list) \<times> world) option"
where
  "lac_loop_05 srv [] lac_data w = Some (Inr lac_data, w)"
| "lac_loop_05 srv (country_name # names) lac_data w =
     (case (COUNTRIES ''China'', COUNTRIES country_name) of
        (Some reporter, Some partner) \<Rightarrow>
          (case download_dataset_05 srv API_KEY reporter partner 1992 2023 ''X'' ''AG6'' w of
             None \<Rightarrow> None
           | Some (df, w1) \<Rightarrow>
               (let lac_data1 =
                      (case df of
                         Some d \<Rightarrow> lac_data @ [set_column ''partner_country'' country_name d]
                       | None \<Rightarrow> lac_data)
                in lac_loop_05 srv names lac_data1 (time_sleep 2 w1)))
      | _ \<Rightarrow> Some (Inl KeyError, w))"

definition download_4_05 :: "http_stub \<Rightarrow> world \<Rightarrow> step" where
  "download_4_05 srv w =
     (case lac_loop_05 srv [''Chile'', ''Peru'', ''Brazil'', ''Argentina'', ''Ecuador''] [] w of
        None \<Rightarrow> None
      | Some (Inl e, w1) \<Rightarrow> Some (Some (Uncaught e), w1)
      | Some (Inr lac_data, w1) \<Rightarrow>
          Some (None,
            if lac_data \<noteq> [] then to_csv (pd_concat lac_data) ''china_exports_to_lac_HS6.csv'' w1
            else w1))"

definition main_05 :: "http_stub \<Rightarrow> world \<Rightarrow> step" where
  "main_05 srv w0 =
     and_then (download_1_05 srv w0) (\<lambda>w1.
     and_then (download_2_05 srv w1) (\<lambda>w2.
       if near_limit w2 then Some (Some (SysExit 0), w2)
       else
         and_then (download_3_05 srv w2) (\<lambda>w3.
         and_then (download_4_05 srv w3) (\<lambda>w4.
           Some (None, w4)))))"

section \<open>Observing a run\<close>

text \<open>The request \<^verbatim>\<open>download_year\<close> builds from its arguments.\<close>

abbreviation params_of ::
  "string \<Rightarrow> string \<Rightarrow> string \<Rightarrow> int \<Rightarrow> string \<Rightarrow> string \<Rightarrow> request" where
  "params_of api_key reporter partner year flow cmd_code \<equiv>
     \<lparr>subscription_key = api_key, reporterCode = reporter, period = year,
      partnerCode = partner, flowCode = flow, cmdCode = cmd_code\<rparr>"

text \<open>
  The round-trips of a trace are its \<open>HttpGet\<close> events: \<open>received\<close> counts those that
  came back with a response, \<open>raised\<close> those in which \<^verbatim>\<open>requests.get\<close> raised.
\<close>

fun received :: "event list \<Rightarrow> nat" where
  "received [] = 0"
| "received (HttpGet rq (Response status_code body) # es) = Suc (received es)"
| "received (e # es) = received es"

fun raised :: "event list \<Rightarrow> nat" where
  "raised [] = 0"
| "raised (HttpGet rq Raises # es) = Suc (raised es)"
| "raised (e # es) = raised es"

text \<open>The rows a round-trip brought: those of a 200 response with a data array.\<close>

fun success_rows :: "event \<Rightarrow> table" where
  "success_rows (HttpGet rq (Response status_code (Json (Some data)))) =
     (if status_code = 200 then data else [])"
| "success_rows e = []"

definition rows_in :: "event list \<Rightarrow> table" where
  "rows_in es = concat (map success_rows es)"

text \<open>The events of one \<^verbatim>\<open>download_year\<close>: gets of one request and cooldowns.\<close>

definition fetch_of :: "request \<Rightarrow> event list \<Rightarrow> bool" where
  "fetch_of rq es \<longleftrightarrow> (\<forall>e \<in> set es. e = Sleep 60 \<or> (\<exists>res. e = HttpGet rq res))"

definition cooldowns :: "request \<Rightarrow> (nat \<Rightarrow> payload) \<Rightarrow> nat \<Rightarrow> event list" where
  "cooldowns rq bodies n =
     concat (map (\<lambda>i. [HttpGet rq (Response 429 (bodies i)), Sleep 60]) [0..<n])"

fun is_net :: "event \<Rightarrow> bool" where
  "is_net (HttpGet rq res) = True"
| "is_net (Sleep secs) = True"
| "is_net e = False"

text \<open>The rows of a result, none when it is absent; the list of frames with one more.\<close>

definition result_rows :: "table option \<Rightarrow> table" where
  "result_rows df = (case df of None \<Rightarrow> [] | Some d \<Rightarrow> d)"

definition add_frame :: "table list \<Rightarrow> table option \<Rightarrow> table list" where
  "add_frame all_data df = (case df of Some d \<Rightarrow> all_data @ [d] | None \<Rightarrow> all_data)"

definition tagged :: "string \<Rightarrow> table option \<Rightarrow> table list" where
  "tagged country_name df =
     (case df of Some d \<Rightarrow> [set_column ''partner_country'' country_name d] | None \<Rightarrow> [])"

text \<open>A state with its printed lines erased, and a run seen so.\<close>

fun is_print :: "event \<Rightarrow> bool" where
  "is_print (Print line vals) = True"
| "is_print e = False"

definition silent :: "world \<Rightarrow> world" where
  "silent w = w\<lparr>trace := filter (\<lambda>e. \<not> is_print e) (trace w)\<rparr>"

definition silently :: "('a \<times> world) option \<Rightarrow> ('a \<times> world) option" where
  "silently m = map_option (\<lambda>(x, w). (x, silent w)) m"

text \<open>No file of the trace was written from an empty frame.\<close>

definition no_empty_file :: "event list \<Rightarrow> bool" where
  "no_empty_file es \<longleftrightarrow> (\<forall>name. ToCsv name [] \<notin> set es)"

section \<open>Sample services and states\<close>

text \<open>Stubs of the service and states of the module, for the concrete runs below.\<close>

definition unreachable_service :: http_stub where
  "unreachable_service hist rq = Raises"

definition china_1992 :: request where
  "china_1992 = params_of API_KEY ''170'' ''156'' 1992 ''M'' ''AG6''"

abbreviation china_year :: "int \<Rightarrow> request" where
  "china_year y \<equiv> params_of API_KEY ''170'' ''156'' y ''M'' ''AG6''"

abbreviation world_1992 :: request where
  "world_1992 \<equiv> params_of API_KEY ''170'' ''0'' 1992 ''M'' ''AG6''"


definition sample_rows :: table where
  "sample_rows = [[(''refYear'', ''1992''), (''cmdCode'', ''010121'')]]"


definition throttled_then_down :: http_stub where
  "throttled_then_down hist rq = (if hist = [] then Response 429 Unparseable else Raises)"

definition down_run :: world where
  "down_run =
     \<lparr>call_counter = 1,
      trace = [HttpGet china_1992 (Response 429 Unparseable), Sleep 60,
               HttpGet china_1992 Raises]\<rparr>"

definition always_rows :: http_stub where
  "always_rows hist rq = Response 200 (Json (Some sample_rows))"

definition nearly_spent :: world where
  "nearly_spent = \<lparr>call_counter = 448, trace = []\<rparr>"






definition barren_service :: http_stub where
  "barren_service hist rq =
     (if period rq = 1992 then Response 200 (Json None)
      else if period rq = 1993 then Response 500 Unparseable
      else Raises)"

definition barren_run :: world where
  "barren_run =
     \<lparr>call_counter = 2,
      trace = [HttpGet (china_year 1992) (Response 200 (Json None)), Sleep (3 / 2),
               HttpGet (china_year 1993) (Response 500 Unparseable), Sleep (3 / 2),
               HttpGet (china_year 1994) Raises, Sleep (3 / 2)]\<rparr>"

definition throttled_449 :: http_stub where
  "throttled_449 hist rq =
     (if length hist < 449 then Response 429 Unparseable
      else Response 200 (Json (Some sample_rows)))"

definition gate_run_1 :: world where
  "gate_run_1 =
     \<lparr>call_counter = 450,
      trace =
        [Print ''Comtrade download started: {start_time}'' [],
         Print ''[1/4] Colombia imports from China (HS6)...'' []]
        @ cooldowns (china_year 1992) (\<lambda>i. Unparseable) 449
        @ [HttpGet (china_year 1992) (Response 200 (Json (Some sample_rows))),
           Sleep (3 / 2),
           ToCsv ''colombia_imports_from_china_HS6.csv'' sample_rows,
           Print ''  Records: {len(df):,} | Calls: {call_counter}'' [1, 450]]\<rparr>"

definition gate_run_2 :: world where
  "gate_run_2 =
     \<lparr>call_counter = 451,
      trace = trace gate_run_1
        @ [Print ''[2/4] Colombia imports from World (HS6)...'' [],
           HttpGet world_1992 (Response 200 (Json (Some sample_rows))),
           Sleep (3 / 2),
           ToCsv ''colombia_imports_from_world_HS6.csv'' sample_rows,
           Print ''  Records: {len(df):,} | Calls: {call_counter}'' [1, 451]]\<rparr>"

definition gate_exit :: world where
  "gate_exit =
     \<lparr>call_counter = 451,
      trace = trace gate_run_2
        @ [Print ''Approaching daily limit. Exports pending for tomorrow.'' []]\<rparr>"




section \<open>Properties\<close>

subsection \<open>Fetches and dataset runs\<close>

lemma sent_append [simp]: "sent (xs @ ys) = sent xs @ sent ys"
  by (induction xs rule: sent.induct) auto

lemma received_append [simp]: "received (xs @ ys) = received xs + received ys"
  by (induction xs rule: received.induct) auto

lemma raised_append [simp]: "raised (xs @ ys) = raised xs + raised ys"
  by (induction xs rule: raised.induct) auto

lemma attempts_split: "length (sent es) = received es + raised es"
  by (induction es rule: received.induct) auto

lemma download_year_Raises:
  assumes "srv (sent (trace w)) (params_of k r p y f c) = Raises"
  shows "download_year srv k r p y f c w =
           Some (None, w\<lparr>trace := trace w @ [HttpGet (params_of k r p y f c) Raises]\<rparr>)"
  using assms by (subst download_year.simps) (simp add: requests_get_def Let_def)

lemma download_year_429:
  assumes "srv (sent (trace w)) (params_of k r p y f c) = Response 429 body"
  shows "download_year srv k r p y f c w =
           download_year srv k r p y f c
             (w\<lparr>call_counter := call_counter w + 1,
                trace := trace w @ [HttpGet (params_of k r p y f c) (Response 429 body), Sleep 60]\<rparr>)"
  using assms by (subst download_year.simps) (simp add: requests_get_def time_sleep_def Let_def)

lemma download_year_200:
  assumes "srv (sent (trace w)) (params_of k r p y f c) = Response 200 body"
  shows "download_year srv k r p y f c w =
           Some (case body of Json (Some d) \<Rightarrow> if d \<noteq> [] then Some d else None | _ \<Rightarrow> None,
                 w\<lparr>call_counter := call_counter w + 1,
                   trace := trace w @ [HttpGet (params_of k r p y f c) (Response 200 body)]\<rparr>)"
  using assms by (subst download_year.simps) (simp add: requests_get_def Let_def split: payload.splits option.splits)

lemma download_year_other:
  assumes "srv (sent (trace w)) (params_of k r p y f c) = Response s body" "s \<noteq> 200" "s \<noteq> 429"
  shows "download_year srv k r p y f c w =
           Some (None,
                 w\<lparr>call_counter := call_counter w + 1,
                   trace := trace w @ [HttpGet (params_of k r p y f c) (Response s body)]\<rparr>)"
  using assms by (subst download_year.simps) (simp add: requests_get_def Let_def)

lemma success_rows_not_200 [simp]:
  "s \<noteq> 200 \<Longrightarrow> success_rows (HttpGet rq (Response s body)) = []"
  by (cases "HttpGet rq (Response s body)" rule: success_rows.cases) auto

lemma rows_in_simps [simp]:
  "rows_in [] = []"
  "rows_in (e # es) = success_rows e @ rows_in es"
  "rows_in (xs @ ys) = rows_in xs @ rows_in ys"
  by (simp_all add: rows_in_def)

lemma fetch_of_simps [simp]:
  "fetch_of rq []"
  "fetch_of rq (e # es) \<longleftrightarrow> (e = Sleep 60 \<or> (\<exists>res. e = HttpGet rq res)) \<and> fetch_of rq es"
  by (auto simp: fetch_of_def)

lemma result_rows_simps [simp]: "result_rows None = []" "result_rows (Some d) = d"
  by (simp_all add: result_rows_def)

lemma download_year_run:
  assumes "download_year srv k r p y f c w = Some rw"
  shows "\<exists>new. trace (snd rw) = trace w @ new
           \<and> call_counter (snd rw) = call_counter w + int (received new)
           \<and> fetch_of (params_of k r p y f c) new
           \<and> rows_in new = result_rows (fst rw)
           \<and> fst rw \<noteq> Some []
           \<and> (\<exists>rest. new = HttpGet (params_of k r p y f c)
                                (srv (sent (trace w)) (params_of k r p y f c)) # rest)"
  using assms
proof (induction rule: download_year.raw_induct[rotated 1, consumes 1])
  case (1 dy srv k r p y f c w rw)
  show ?case
  proof (cases "srv (sent (trace w)) (params_of k r p y f c)")
    case Raises
    with "1.hyps" show ?thesis
      by (auto simp: requests_get_def Let_def)
  next
    case (Response s body)
    show ?thesis
    proof (cases "s = 429")
      case True
      with Response "1.hyps" have "dy srv k r p y f c
             (w\<lparr>call_counter := call_counter w + 1,
                trace := trace w @ [HttpGet (params_of k r p y f c) (Response 429 body), Sleep 60]\<rparr>) = Some rw"
        by (simp add: requests_get_def time_sleep_def Let_def)
      from "1.IH"[OF this] True Response show ?thesis by auto
    next
      case False
      with Response "1.hyps" show ?thesis
        by (auto simp: requests_get_def Let_def split: if_splits payload.splits option.splits)
    qed
  qed
qed

lemma fetch_of_net: "fetch_of rq es \<Longrightarrow> \<forall>e \<in> set es. is_net e"
  by (auto simp: fetch_of_def)

lemma fetch_of_sent: "fetch_of rq es \<Longrightarrow> set (sent es) \<subseteq> {rq}"
  by (induction es rule: sent.induct) auto

lemma sorted_constant: "set xs \<subseteq> {y::int} \<Longrightarrow> sorted xs"
  by (induction xs) auto

lemma dataset_loop_Cons:
  "dataset_loop srv k r p f c (y # ys) all_data w =
     (case download_year srv k r p y f c w of
        None \<Rightarrow> None
      | Some (df, w1) \<Rightarrow>
          if near_limit (time_sleep (3 / 2) w1) then Some (add_frame all_data df, time_sleep (3 / 2) w1)
          else dataset_loop srv k r p f c ys (add_frame all_data df) (time_sleep (3 / 2) w1))"
  by (simp add: add_frame_def Let_def split: option.splits)

lemma concat_add_frame: "concat (add_frame all_data df) = concat all_data @ result_rows df"
  by (cases df) (simp_all add: add_frame_def)

lemma add_frame_nonempty: "df \<noteq> Some [] \<Longrightarrow> [] \<notin> set all_data \<Longrightarrow> [] \<notin> set (add_frame all_data df)"
  by (cases df) (auto simp: add_frame_def)

lemma dataset_loop_run:
  assumes "dataset_loop srv k r p f c years all_data w = Some (all_data', w')"
  shows "\<exists>new. trace w' = trace w @ new
           \<and> call_counter w' = call_counter w + int (received new)
           \<and> (\<forall>e \<in> set new. is_net e)
           \<and> (\<forall>rq \<in> set (sent new). period rq \<in> set years \<and> rq = params_of k r p (period rq) f c)
           \<and> concat all_data' = concat all_data @ rows_in new
           \<and> ([] \<notin> set all_data \<longrightarrow> [] \<notin> set all_data')
           \<and> (sorted years \<longrightarrow> sorted (map period (sent new)))
           \<and> (\<not> near_limit w' \<longrightarrow> set years \<subseteq> period ` set (sent new))
           \<and> (years \<noteq> [] \<longrightarrow> (\<exists>rest. new = HttpGet (params_of k r p (hd years) f c) (srv (sent (trace w)) (params_of k r p (hd years) f c)) # rest))"
  using assms
proof (induction years arbitrary: all_data w)
  case Nil
  then show ?case by simp
next
  case (Cons y ys)
  let ?rq = "params_of k r p y f c"
  from Cons.prems obtain df w1 where dy: "download_year srv k r p y f c w = Some (df, w1)"
    by (auto simp: dataset_loop_Cons simp del: dataset_loop.simps split: option.splits)
  from download_year_run[OF dy] obtain n1 where n1:
    "trace w1 = trace w @ n1"
    "call_counter w1 = call_counter w + int (received n1)"
    "fetch_of ?rq n1"
    "rows_in n1 = result_rows df"
    "df \<noteq> Some []"
    "\<exists>rest. n1 = HttpGet ?rq (srv (sent (trace w)) ?rq) # rest"
    by auto
  let ?w2 = "time_sleep (3 / 2) w1"
  have sent1: "set (sent n1) \<subseteq> {?rq}"
    using fetch_of_sent[OF n1(3)] by simp
  have net1: "\<forall>e \<in> set n1. is_net e"
    using fetch_of_net[OF n1(3)] by simp
  have periods1: "set (map period (sent n1)) \<subseteq> {y}"
    using sent1 by auto
  show ?case
  proof (cases "near_limit ?w2")
    case True
    with Cons.prems dy have res: "all_data' = add_frame all_data df" "w' = ?w2"
      by (simp_all add: dataset_loop_Cons del: dataset_loop.simps)
    have sorted1: "sorted (map period (sent (n1 @ [Sleep (3 / 2)])))"
      using sorted_constant[OF periods1] by simp
    show ?thesis
      apply (rule exI[of _ "n1 @ [Sleep (3 / 2)]"])
      using res n1 net1 sent1 sorted1 True
      by (auto simp: time_sleep_def concat_add_frame add_frame_nonempty)
  next
    case False
    with Cons.prems dy have rest: "dataset_loop srv k r p f c ys (add_frame all_data df) ?w2 = Some (all_data', w')"
      by (simp add: dataset_loop_Cons del: dataset_loop.simps)
    from Cons.IH[OF rest] obtain n2 where n2:
      "trace w' = trace ?w2 @ n2"
      "call_counter w' = call_counter ?w2 + int (received n2)"
      "\<forall>e \<in> set n2. is_net e"
      "\<forall>rq \<in> set (sent n2). period rq \<in> set ys \<and> rq = params_of k r p (period rq) f c"
      "concat all_data' = concat (add_frame all_data df) @ rows_in n2"
      "[] \<notin> set (add_frame all_data df) \<longrightarrow> [] \<notin> set all_data'"
      "sorted ys \<longrightarrow> sorted (map period (sent n2))"
      "\<not> near_limit w' \<longrightarrow> set ys \<subseteq> period ` set (sent n2)"
      by blast
    have covers: "set (y # ys) \<subseteq> period ` set (sent (n1 @ Sleep (3 / 2) # n2))" if "\<not> near_limit w'"
    proof -
      from n1(6) obtain rest where "n1 = HttpGet ?rq (srv (sent (trace w)) ?rq) # rest" by blast
      then have "?rq \<in> set (sent n1)" by simp
      then have "y \<in> period ` set (sent n1)" by force
      with n2(8) that show ?thesis by auto
    qed
    have sorted2: "sorted (map period (sent (n1 @ Sleep (3 / 2) # n2)))" if "sorted (y # ys)"
    proof -
      have a: "\<forall>x \<in> set (map period (sent n1)). x = y" using periods1 by auto
      have b: "\<forall>x \<in> set (map period (sent n2)). y \<le> x" using n2(4) that by auto
      have c: "sorted (map period (sent n1))"
        using sorted_constant[OF periods1] .
      have d: "sorted (map period (sent n2))" using n2(7) that by simp
      show ?thesis
        using a b c d by (auto simp: sorted_append)
    qed
    show ?thesis
      apply (rule exI[of _ "n1 @ Sleep (3 / 2) # n2"])
      using n1 n2(1-6) net1 sent1 sorted2 covers
      by (auto simp: time_sleep_def concat_add_frame add_frame_nonempty)
  qed
qed

lemma download_year_counter:
  assumes "download_year srv k r p y f c w = Some (df, w')"
  shows "\<exists>new. trace w' = trace w @ new
           \<and> call_counter w' = call_counter w + int (received new)
           \<and> call_counter w' + int (raised new) = call_counter w + int (length (sent new))"
proof -
  from download_year_run[OF assms] obtain new where
    "trace w' = trace w @ new" "call_counter w' = call_counter w + int (received new)"
    by auto
  then show ?thesis
    by (intro exI[of _ new]) (simp add: attempts_split)
qed

lemma run_throttled_then_down:
  "download_year throttled_then_down API_KEY ''170'' ''156'' 1992 ''M'' ''AG6'' initial_world =
     Some (None, down_run)"
  by (simp add: download_year_429 download_year_Raises throttled_then_down_def
        initial_world_def china_1992_def down_run_def)

lemma cooldowns_0 [simp]: "cooldowns rq bodies 0 = []"
  by (simp add: cooldowns_def)

lemma cooldowns_Suc:
  "cooldowns rq bodies (Suc n) =
     HttpGet rq (Response 429 (bodies 0)) # Sleep 60 # cooldowns rq (\<lambda>i. bodies (Suc i)) n"
  by (simp add: cooldowns_def map_upt_Suc del: upt_Suc)

lemma download_year_retries:
  assumes "\<And>i. i < n \<Longrightarrow>
             srv (sent (trace w) @ replicate i (params_of k r p y f c)) (params_of k r p y f c)
               = Response 429 (bodies i)"
    and "srv (sent (trace w) @ replicate n (params_of k r p y f c)) (params_of k r p y f c)
           = Response 200 (Json (Some rows))"
    and "rows \<noteq> []"
  shows "download_year srv k r p y f c w =
           Some (Some rows,
                 w\<lparr>call_counter := call_counter w + int n + 1,
                   trace := trace w @ cooldowns (params_of k r p y f c) bodies n
                              @ [HttpGet (params_of k r p y f c) (Response 200 (Json (Some rows)))]\<rparr>)"
  using assms
proof (induction n arbitrary: w bodies)
  case 0
  then show ?case by (simp add: download_year_200)
next
  case (Suc n)
  let ?rq = "params_of k r p y f c"
  let ?w1 = "w\<lparr>call_counter := call_counter w + 1,
               trace := trace w @ [HttpGet ?rq (Response 429 (bodies 0)), Sleep 60]\<rparr>"
  have first: "srv (sent (trace w)) ?rq = Response 429 (bodies 0)"
    using Suc.prems(1)[of 0] by simp
  have later: "srv (sent (trace ?w1) @ replicate i ?rq) ?rq = Response 429 (bodies (Suc i))"
    if "i < n" for i
    using Suc.prems(1)[of "Suc i"] that by simp
  have last: "srv (sent (trace ?w1) @ replicate n ?rq) ?rq = Response 200 (Json (Some rows))"
    using Suc.prems(2) by simp
  have "download_year srv k r p y f c w = download_year srv k r p y f c ?w1"
    using first by (rule download_year_429)
  also have "\<dots> = Some (Some rows,
                 ?w1\<lparr>call_counter := call_counter ?w1 + int n + 1,
                   trace := trace ?w1 @ cooldowns ?rq (\<lambda>i. bodies (Suc i)) n
                              @ [HttpGet ?rq (Response 200 (Json (Some rows)))]\<rparr>)"
    using later last Suc.prems(3) by (intro Suc.IH) simp_all
  finally show ?case
    by (simp add: cooldowns_Suc)
qed


lemma dataset_loop_append:
  assumes "dataset_loop srv k r p f c ys1 all_data w = Some (gathered, wm)"
    and "ys1 \<noteq> [] \<longrightarrow> \<not> near_limit wm"
  shows "dataset_loop srv k r p f c (ys1 @ ys2) all_data w =
           dataset_loop srv k r p f c ys2 gathered wm"
  using assms
proof (induction ys1 arbitrary: all_data w)
  case Nil
  then show ?case by simp
next
  case (Cons y ys)
  from Cons.prems(1) obtain df w1 where dy: "download_year srv k r p y f c w = Some (df, w1)"
    by (auto simp: dataset_loop_Cons simp del: dataset_loop.simps split: option.splits)
  let ?w2 = "time_sleep (3 / 2) w1"
  have go_on: "\<not> near_limit ?w2"
  proof
    assume "near_limit ?w2"
    with Cons.prems(1) dy have "wm = ?w2"
      by (simp add: dataset_loop_Cons del: dataset_loop.simps)
    with Cons.prems(2) \<open>near_limit ?w2\<close> show False by simp
  qed
  with Cons.prems(1) dy
  have rest: "dataset_loop srv k r p f c ys (add_frame all_data df) ?w2 = Some (gathered, wm)"
    by (simp add: dataset_loop_Cons del: dataset_loop.simps)
  have "dataset_loop srv k r p f c (ys @ ys2) (add_frame all_data df) ?w2 =
          dataset_loop srv k r p f c ys2 gathered wm"
  proof (cases "ys = []")
    case True
    with rest show ?thesis by simp
  next
    case False
    with Cons.prems(2) have "ys \<noteq> [] \<longrightarrow> \<not> near_limit wm" by simp
    from Cons.IH[OF rest this] show ?thesis .
  qed
  with dy go_on show ?case
    by (simp add: dataset_loop_Cons del: dataset_loop.simps)
qed

lemma save_absent [simp]: "save_and_report None name w = w" "save_05 None name w = w"
  by (simp_all add: save_and_report_def save_05_def)

lemma download_dataset_SomeE:
  assumes "download_dataset srv k r p start_year end_year f c w = Some (df, w')"
  obtains all_data where
    "dataset_loop srv k r p f c [start_year..end_year] [] w = Some (all_data, w')"
    "df = (if all_data \<noteq> [] then Some (pd_concat all_data) else None)"
  using assms by (auto simp: download_dataset_def split: option.splits)

lemma download_dataset_counter:
  assumes "download_dataset srv k r p start_year end_year f c w = Some (df, w')"
  shows "\<exists>new. trace w' = trace w @ new
           \<and> call_counter w' = call_counter w + int (received new)
           \<and> call_counter w' + int (raised new) = call_counter w + int (length (sent new))"
proof -
  from assms obtain all_data where
    loop: "dataset_loop srv k r p f c [start_year..end_year] [] w = Some (all_data, w')"
    by (rule download_dataset_SomeE)
  from dataset_loop_run[OF loop] obtain new where
    "trace w' = trace w @ new" "call_counter w' = call_counter w + int (received new)"
    by blast
  then show ?thesis
    by (intro exI[of _ new]) (simp add: attempts_split)
qed


lemma run_barren_service:
  "download_dataset barren_service API_KEY ''170'' ''156'' 1992 1994 ''M'' ''AG6'' initial_world =
     Some (None, barren_run)"
  by (simp add: download_dataset_def download_year_200 download_year_other download_year_Raises
        barren_service_def initial_world_def barren_run_def time_sleep_def near_limit_def
        max_calls_def)

subsection \<open>The partner loop and \<^verbatim>\<open>main\<close>\<close>



lemma lac_loop_Cons:
  assumes "COUNTRIES country_name = Some partner"
  shows "lac_loop srv (country_name # names) lac_data w =
     (case download_dataset srv API_KEY ''156'' partner 1992 2023 ''X'' ''AG6'' w of
        None \<Rightarrow> None
      | Some (df, w1) \<Rightarrow> lac_loop srv names (lac_data @ tagged country_name df) (time_sleep 2 w1))"
  using assms by (simp add: COUNTRIES_def tagged_def Let_def split: option.splits)

lemma and_then_simps [simp]:
  "and_then None k = None"
  "and_then (Some (Some e, w)) k = Some (Some e, w)"
  "and_then (Some (None, w)) k = k w"
  by (simp_all add: and_then_def)

lemma main_after_imports:
  assumes "download_1 srv (print ''Comtrade download started: {start_time}'' [] w0) = Some (None, w1)"
    and "download_2 srv w1 = Some (None, w2)"
  shows "main srv w0 =
           (if near_limit w2 then
              Some (Some (SysExit 0),
                    print ''Approaching daily limit. Exports pending for tomorrow.'' [] w2)
            else
              and_then (download_3 srv w2) (\<lambda>w3.
              and_then (download_4 srv w3) (\<lambda>w4.
                Some (None, report_end w4))))"
  by (simp add: main_def assms)

lemma main_05_after_imports:
  assumes "download_1_05 srv w0 = Some (None, w1)"
    and "download_2_05 srv w1 = Some (None, w2)"
  shows "main_05 srv w0 =
           (if near_limit w2 then Some (Some (SysExit 0), w2)
            else
              and_then (download_3_05 srv w2) (\<lambda>w3.
              and_then (download_4_05 srv w3) (\<lambda>w4.
                Some (None, w4))))"
  by (simp add: main_05_def assms)

lemma sent_cooldowns [simp]: "sent (cooldowns rq bodies n) = replicate n rq"
  by (induction n arbitrary: bodies) (simp_all add: cooldowns_Suc)

lemma COUNTRIES_simps [simp]:
  "COUNTRIES ''Colombia'' = Some ''170''"
  "COUNTRIES ''China'' = Some ''156''"
  "COUNTRIES ''World'' = Some ''0''"
  "COUNTRIES ''Chile'' = Some ''152''"
  "COUNTRIES ''Peru'' = Some ''604''"
  "COUNTRIES ''Brazil'' = Some ''076''"
  "COUNTRIES ''Argentina'' = Some ''032''"
  "COUNTRIES ''Ecuador'' = Some ''218''"
  by (simp_all add: COUNTRIES_def)

lemma dataset_stops_after_first:
  assumes "download_year srv k r p start_year f c w = Some (Some d, w1)"
    and "near_limit (time_sleep (3 / 2) w1)" and "start_year \<le> end_year"
  shows "download_dataset srv k r p start_year end_year f c w =
           Some (Some d, time_sleep (3 / 2) w1)"
  using assms
  by (simp add: download_dataset_def upto_rec1[of start_year end_year] pd_concat_def)

lemma gate_first_year:
  "download_year throttled_449 API_KEY ''170'' ''156'' 1992 ''M'' ''AG6''
     \<lparr>call_counter = 0,
      trace = [Print ''Comtrade download started: {start_time}'' [],
               Print ''[1/4] Colombia imports from China (HS6)...'' []]\<rparr> =
   Some (Some sample_rows,
     \<lparr>call_counter = 450,
      trace =
        [Print ''Comtrade download started: {start_time}'' [],
         Print ''[1/4] Colombia imports from China (HS6)...'' []]
        @ cooldowns (china_year 1992) (\<lambda>i. Unparseable) 449
        @ [HttpGet (china_year 1992) (Response 200 (Json (Some sample_rows)))]\<rparr>)"
proof -
  let ?w = "\<lparr>call_counter = 0,
      trace = [Print ''Comtrade download started: {start_time}'' [],
               Print ''[1/4] Colombia imports from China (HS6)...'' []]\<rparr>"
  have "download_year throttled_449 API_KEY ''170'' ''156'' 1992 ''M'' ''AG6'' ?w =
          Some (Some sample_rows,
                ?w\<lparr>call_counter := call_counter ?w + int 449 + 1,
                   trace := trace ?w @ cooldowns (china_year 1992) (\<lambda>i. Unparseable) 449
                              @ [HttpGet (china_year 1992) (Response 200 (Json (Some sample_rows)))]\<rparr>)"
    by (rule download_year_retries) (simp_all add: throttled_449_def sample_rows_def)
  then show ?thesis by simp
qed

lemma gate_download_1:
  "download_1 throttled_449 (print ''Comtrade download started: {start_time}'' [] initial_world)
     = Some (None, gate_run_1)"
  by (simp add: download_1_def print_def initial_world_def Let_def
        dataset_stops_after_first[OF gate_first_year] time_sleep_def near_limit_def max_calls_def
        save_and_report_def to_csv_def gate_run_1_def sample_rows_def)

lemma gate_download_2:
  "download_2 throttled_449 gate_run_1 = Some (None, gate_run_2)"
proof -
  let ?w = "print ''[2/4] Colombia imports from World (HS6)...'' [] gate_run_1"
  have hist: "length (sent (trace ?w)) = 450"
    by (simp add: print_def gate_run_1_def)
  have year: "download_year throttled_449 API_KEY ''170'' ''0'' 1992 ''M'' ''AG6'' ?w =
     Some (Some sample_rows,
           ?w\<lparr>call_counter := call_counter ?w + 1,
              trace := trace ?w @ [HttpGet world_1992 (Response 200 (Json (Some sample_rows)))]\<rparr>)"
    by (subst download_year_200[where body = "Json (Some sample_rows)"])
       (simp_all add: throttled_449_def hist sample_rows_def)
  have stop: "near_limit (time_sleep (3 / 2)
           (?w\<lparr>call_counter := call_counter ?w + 1,
              trace := trace ?w @ [HttpGet world_1992 (Response 200 (Json (Some sample_rows)))]\<rparr>))"
    by (simp add: near_limit_def max_calls_def time_sleep_def print_def gate_run_1_def)
  have "download_2 throttled_449 gate_run_1 =
          Some (None, save_and_report (Some sample_rows) ''colombia_imports_from_world_HS6.csv''
            (time_sleep (3 / 2)
              (?w\<lparr>call_counter := call_counter ?w + 1,
                 trace := trace ?w
                   @ [HttpGet world_1992 (Response 200 (Json (Some sample_rows)))]\<rparr>)))"
    by (simp add: download_2_def Let_def dataset_stops_after_first[OF year stop])
  also have "\<dots> = Some (None, gate_run_2)"
    by (simp add: save_and_report_def to_csv_def time_sleep_def print_def gate_run_2_def
          gate_run_1_def sample_rows_def)
  finally show ?thesis .
qed

lemma gate_near_limit: "near_limit gate_run_1" "near_limit gate_run_2"
  by (simp_all add: near_limit_def max_calls_def gate_run_1_def gate_run_2_def)

lemma gate_main: "main throttled_449 initial_world = Some (Some (SysExit 0), gate_exit)"
proof -
  have "main throttled_449 initial_world =
          Some (Some (SysExit 0),
                print ''Approaching daily limit. Exports pending for tomorrow.'' [] gate_run_2)"
    by (simp add: main_after_imports[OF gate_download_1 gate_download_2] gate_near_limit)
  also have "\<dots> = Some (Some (SysExit 0), gate_exit)"
    by (simp add: gate_exit_def print_def gate_run_2_def)
  finally show ?thesis .
qed

subsection \<open>The second file\<close>

lemma download_year_05_le:
  assumes "download_year_05 srv k r p y f c w = Some rw"
  shows "download_year srv k r p y f c w = Some rw"
  using assms
proof (induction rule: download_year_05.raw_induct[rotated 1, consumes 1])
  case (1 dy srv k r p y f c w rw)
  show ?case
  proof (cases "srv (sent (trace w)) (params_of k r p y f c)")
    case Raises
    with "1.hyps" show ?thesis
      by (auto simp: download_year_Raises requests_get_def Let_def)
  next
    case (Response s body)
    show ?thesis
    proof (cases "s = 429")
      case True
      with Response "1.hyps" have "dy srv k r p y f c
             (w\<lparr>call_counter := call_counter w + 1,
                trace := trace w @ [HttpGet (params_of k r p y f c) (Response 429 body), Sleep 60]\<rparr>) = Some rw"
        by (simp add: requests_get_def time_sleep_def Let_def)
      from "1.IH"[OF this] True Response show ?thesis
        by (simp add: download_year_429)
    next
      case False
      show ?thesis
      proof (cases "s = 200")
        case True
        with Response "1.hyps" show ?thesis
          by (auto simp: download_year_200 requests_get_def Let_def
                split: payload.splits option.splits if_splits)
      next
        case other: False
        with False Response "1.hyps" show ?thesis
          by (auto simp: download_year_other requests_get_def Let_def)
      qed
    qed
  qed
qed

lemma download_year_05_ge:
  assumes "download_year srv k r p y f c w = Some rw"
  shows "download_year_05 srv k r p y f c w = Some rw"
  using assms
proof (induction rule: download_year.raw_induct[rotated 1, consumes 1])
  case (1 dy srv k r p y f c w rw)
  show ?case
  proof (cases "srv (sent (trace w)) (params_of k r p y f c)")
    case Raises
    with "1.hyps" show ?thesis
      by (subst download_year_05.simps) (auto simp: requests_get_def Let_def)
  next
    case (Response s body)
    show ?thesis
    proof (cases "s = 429")
      case True
      with Response "1.hyps" have "dy srv k r p y f c (time_sleep 60
             (w\<lparr>trace := trace w @ [HttpGet (params_of k r p y f c) (Response 429 body)],
                call_counter := call_counter w + 1\<rparr>)) = Some rw"
        by (simp add: requests_get_def Let_def)
      from "1.IH"[OF this] True Response show ?thesis
        by (subst download_year_05.simps) (simp add: requests_get_def Let_def)
    next
      case False
      with Response "1.hyps" show ?thesis
        by (subst download_year_05.simps) (auto simp: requests_get_def Let_def split: if_splits)
    qed
  qed
qed

lemma download_year_05_eq:
  "download_year_05 srv k r p y f c w = download_year srv k r p y f c w"
proof (cases "download_year_05 srv k r p y f c w")
  case None
  show ?thesis
  proof (cases "download_year srv k r p y f c w")
    case inner: None
    with None show ?thesis by simp
  next
    case (Some rw)
    from download_year_05_ge[OF this] None show ?thesis by simp
  qed
next
  case (Some rw)
  from download_year_05_le[OF this] Some show ?thesis by simp
qed

lemma dataset_loop_05_eq:
  "dataset_loop_05 srv k r p f c years all_data w = dataset_loop srv k r p f c years all_data w"
  by (induction years arbitrary: all_data w)
     (simp_all add: download_year_05_eq Let_def split: option.splits)

lemma download_dataset_05_eq:
  "download_dataset_05 srv k r p start_year end_year f c w =
     download_dataset srv k r p start_year end_year f c w"
  by (simp add: download_dataset_05_def download_dataset_def dataset_loop_05_eq)

lemma lac_loop_05_eq: "lac_loop_05 srv names lac_data w = lac_loop srv names lac_data w"
  by (induction names arbitrary: lac_data w)
     (simp_all add: download_dataset_05_eq Let_def split: option.splits)

lemma sent_silent [simp]: "sent (filter (\<lambda>e. \<not> is_print e) es) = sent es"
  by (induction es rule: sent.induct) simp_all

lemma silent_simps [simp]:
  "call_counter (silent w) = call_counter w"
  "sent (trace (silent w)) = sent (trace w)"
  "near_limit (silent w) = near_limit w"
  "silent (print line vals w) = silent w"
  "silent (time_sleep secs w) = time_sleep secs (silent w)"
  "silent (to_csv d name w) = to_csv d name (silent w)"
  by (simp_all add: silent_def near_limit_def print_def time_sleep_def to_csv_def)

lemma silent_step:
  "silent (w\<lparr>call_counter := n, trace := trace w @ [HttpGet rq res]\<rparr>) =
     (silent w)\<lparr>call_counter := n, trace := trace (silent w) @ [HttpGet rq res]\<rparr>"
  "silent (w\<lparr>call_counter := n, trace := trace w @ [HttpGet rq res, Sleep secs]\<rparr>) =
     (silent w)\<lparr>call_counter := n, trace := trace (silent w) @ [HttpGet rq res, Sleep secs]\<rparr>"
  "silent (w\<lparr>trace := trace w @ [HttpGet rq res]\<rparr>) =
     (silent w)\<lparr>trace := trace (silent w) @ [HttpGet rq res]\<rparr>"
  by (simp_all add: silent_def)

lemma download_year_silent_fwd:
  assumes "download_year srv k r p y f c w = Some rw"
  shows "download_year srv k r p y f c (silent w) = Some (fst rw, silent (snd rw))"
  using assms
proof (induction rule: download_year.raw_induct[rotated 1, consumes 1])
  case (1 dy srv k r p y f c w rw)
  let ?rq = "params_of k r p y f c"
  have same: "srv (sent (trace (silent w))) ?rq = srv (sent (trace w)) ?rq"
    by simp
  show ?case
  proof (cases "srv (sent (trace w)) ?rq")
    case Raises
    with "1.hyps" have "rw = (None, w\<lparr>trace := trace w @ [HttpGet ?rq Raises]\<rparr>)"
      by (auto simp: requests_get_def Let_def)
    moreover have "download_year srv k r p y f c (silent w) =
        Some (None, (silent w)\<lparr>trace := trace (silent w) @ [HttpGet ?rq Raises]\<rparr>)"
      using Raises same by (intro download_year_Raises) simp
    ultimately show ?thesis by (simp add: silent_step)
  next
    case (Response s body)
    show ?thesis
    proof (cases "s = 429")
      case True
      let ?w1 = "w\<lparr>call_counter := call_counter w + 1,
                   trace := trace w @ [HttpGet ?rq (Response 429 body), Sleep 60]\<rparr>"
      from True Response "1.hyps" have "dy srv k r p y f c ?w1 = Some rw"
        by (simp add: requests_get_def time_sleep_def Let_def)
      from "1.IH"[OF this]
      have "download_year srv k r p y f c (silent ?w1) = Some (fst rw, silent (snd rw))" .
      moreover have "download_year srv k r p y f c (silent w) =
          download_year srv k r p y f c
            ((silent w)\<lparr>call_counter := call_counter (silent w) + 1,
               trace := trace (silent w) @ [HttpGet ?rq (Response 429 body), Sleep 60]\<rparr>)"
        using True Response same by (intro download_year_429) simp
      ultimately show ?thesis by (simp add: silent_step)
    next
      case False
      show ?thesis
      proof (cases "s = 200")
        case True
        let ?res = "case body of Json (Some d) \<Rightarrow> if d \<noteq> [] then Some d else None | _ \<Rightarrow> None"
        from True Response "1.hyps"
        have "rw = (?res, w\<lparr>call_counter := call_counter w + 1,
                       trace := trace w @ [HttpGet ?rq (Response 200 body)]\<rparr>)"
          by (auto simp: requests_get_def Let_def split: payload.splits option.splits if_splits)
        moreover have "download_year srv k r p y f c (silent w) =
            Some (?res, (silent w)\<lparr>call_counter := call_counter (silent w) + 1,
                          trace := trace (silent w) @ [HttpGet ?rq (Response 200 body)]\<rparr>)"
          using True Response same by (intro download_year_200) simp
        ultimately show ?thesis by (simp add: silent_step)
      next
        case other: False
        from other False Response "1.hyps"
        have "rw = (None, w\<lparr>call_counter := call_counter w + 1,
                       trace := trace w @ [HttpGet ?rq (Response s body)]\<rparr>)"
          by (auto simp: requests_get_def Let_def)
        moreover have "download_year srv k r p y f c (silent w) =
            Some (None, (silent w)\<lparr>call_counter := call_counter (silent w) + 1,
                          trace := trace (silent w) @ [HttpGet ?rq (Response s body)]\<rparr>)"
          using other False Response same by (intro download_year_other) simp_all
        ultimately show ?thesis by (simp add: silent_step)
      qed
    qed
  qed
qed

lemma download_year_silent_bwd:
  assumes "download_year srv k r p y f c u = Some ru"
  shows "\<forall>w. u = silent w \<longrightarrow>
           (\<exists>w'. download_year srv k r p y f c w = Some (fst ru, w') \<and> snd ru = silent w')"
  using assms
proof (induction rule: download_year.raw_induct[rotated 1, consumes 1])
  case (1 dy srv k r p y f c u ru)
  let ?rq = "params_of k r p y f c"
  show ?case
  proof (intro allI impI)
    fix w assume u: "u = silent w"
    then have same: "srv (sent (trace u)) ?rq = srv (sent (trace w)) ?rq"
      by simp
    show "\<exists>w'. download_year srv k r p y f c w = Some (fst ru, w') \<and> snd ru = silent w'"
    proof (cases "srv (sent (trace w)) ?rq")
      case Raises
      with "1.hyps" same have "ru = (None, u\<lparr>trace := trace u @ [HttpGet ?rq Raises]\<rparr>)"
        by (auto simp: requests_get_def Let_def)
      moreover have "download_year srv k r p y f c w =
          Some (None, w\<lparr>trace := trace w @ [HttpGet ?rq Raises]\<rparr>)"
        using Raises by (intro download_year_Raises)
      ultimately show ?thesis using u by (simp add: silent_step)
    next
      case (Response s body)
      show ?thesis
      proof (cases "s = 429")
        case True
        let ?u1 = "u\<lparr>call_counter := call_counter u + 1,
                     trace := trace u @ [HttpGet ?rq (Response 429 body), Sleep 60]\<rparr>"
        let ?w1 = "w\<lparr>call_counter := call_counter w + 1,
                     trace := trace w @ [HttpGet ?rq (Response 429 body), Sleep 60]\<rparr>"
        from True Response "1.hyps" same have "dy srv k r p y f c ?u1 = Some ru"
          by (simp add: requests_get_def time_sleep_def Let_def)
        from "1.IH"[OF this] have
          "\<forall>w. ?u1 = silent w \<longrightarrow>
             (\<exists>w'. download_year srv k r p y f c w = Some (fst ru, w') \<and> snd ru = silent w')" .
        moreover have "?u1 = silent ?w1"
          using u by (simp add: silent_step)
        ultimately obtain w' where
          "download_year srv k r p y f c ?w1 = Some (fst ru, w')" "snd ru = silent w'"
          by blast
        moreover have "download_year srv k r p y f c w = download_year srv k r p y f c ?w1"
          using True Response by (intro download_year_429) simp
        ultimately show ?thesis by simp
      next
        case False
        show ?thesis
        proof (cases "s = 200")
          case True
          let ?res = "case body of Json (Some d) \<Rightarrow> if d \<noteq> [] then Some d else None | _ \<Rightarrow> None"
          from True Response "1.hyps" same
          have "ru = (?res, u\<lparr>call_counter := call_counter u + 1,
                         trace := trace u @ [HttpGet ?rq (Response 200 body)]\<rparr>)"
            by (auto simp: requests_get_def Let_def split: payload.splits option.splits if_splits)
          moreover have "download_year srv k r p y f c w =
              Some (?res, w\<lparr>call_counter := call_counter w + 1,
                            trace := trace w @ [HttpGet ?rq (Response 200 body)]\<rparr>)"
            using True Response by (intro download_year_200) simp
          ultimately show ?thesis using u by (simp add: silent_step)
        next
          case other: False
          from other False Response "1.hyps" same
          have "ru = (None, u\<lparr>call_counter := call_counter u + 1,
                         trace := trace u @ [HttpGet ?rq (Response s body)]\<rparr>)"
            by (auto simp: requests_get_def Let_def)
          moreover have "download_year srv k r p y f c w =
              Some (None, w\<lparr>call_counter := call_counter w + 1,
                            trace := trace w @ [HttpGet ?rq (Response s body)]\<rparr>)"
            using other False Response by (intro download_year_other) simp_all
          ultimately show ?thesis using u by (simp add: silent_step)
        qed
      qed
    qed
  qed
qed

lemma download_year_silent:
  "download_year srv k r p y f c (silent w) =
     map_option (\<lambda>(df, w'). (df, silent w')) (download_year srv k r p y f c w)"
proof (cases "download_year srv k r p y f c w")
  case None
  show ?thesis
  proof (cases "download_year srv k r p y f c (silent w)")
    case inner: None
    with None show ?thesis by simp
  next
    case (Some ru)
    from download_year_silent_bwd[OF this] None show ?thesis by auto
  qed
next
  case (Some rw)
  from download_year_silent_fwd[OF this] Some show ?thesis
    by (cases rw) simp
qed

lemma silently_simps [simp]:
  "silently None = None"
  "silently (Some (x, w)) = Some (x, silent w)"
  by (simp_all add: silently_def)

lemma near_limit_effects [simp]:
  "near_limit (time_sleep secs w) = near_limit w"
  "near_limit (print line vals w) = near_limit w"
  "near_limit (to_csv d name w) = near_limit w"
  by (simp_all add: near_limit_def time_sleep_def print_def to_csv_def)

lemma download_year_silently:
  "download_year srv k r p y f c (silent w) = silently (download_year srv k r p y f c w)"
  by (simp add: download_year_silent silently_def)

lemma dataset_loop_silent:
  "dataset_loop srv k r p f c years all_data (silent w) =
     silently (dataset_loop srv k r p f c years all_data w)"
proof (induction years arbitrary: all_data w)
  case Nil
  show ?case by simp
next
  case (Cons y ys)
  show ?case
  proof (cases "download_year srv k r p y f c w")
    case None
    then show ?thesis
      by (simp add: dataset_loop_Cons download_year_silently del: dataset_loop.simps)
  next
    case (Some rw)
    obtain df w1 where rw: "rw = (df, w1)" by (cases rw)
    show ?thesis
      using Some rw Cons.IH[of "add_frame all_data df" "time_sleep (3 / 2) w1"]
      by (simp add: dataset_loop_Cons download_year_silently del: dataset_loop.simps)
  qed
qed

lemma download_dataset_silent:
  "download_dataset srv k r p start_year end_year f c (silent w) =
     silently (download_dataset srv k r p start_year end_year f c w)"
  by (cases "dataset_loop srv k r p f c [start_year..end_year] [] w")
     (auto simp: download_dataset_def dataset_loop_silent)

lemma lac_loop_silent:
  "lac_loop srv names lac_data (silent w) = silently (lac_loop srv names lac_data w)"
proof (induction names arbitrary: lac_data w)
  case Nil
  show ?case by simp
next
  case (Cons n ns)
  show ?case
  proof (cases "COUNTRIES n")
    case None
    then show ?thesis by simp
  next
    case (Some partner)
    show ?thesis
    proof (cases "download_dataset srv API_KEY ''156'' partner 1992 2023 ''X'' ''AG6'' w")
      case None
      with Some show ?thesis
        by (simp add: lac_loop_Cons download_dataset_silent del: lac_loop.simps)
    next
      case run: (Some rw)
      obtain df w1 where rw: "rw = (df, w1)" by (cases rw)
      show ?thesis
        using Some run rw Cons.IH[of "lac_data @ tagged n df" "time_sleep 2 w1"]
        by (simp add: lac_loop_Cons download_dataset_silent del: lac_loop.simps)
    qed
  qed
qed

lemma save_silent [simp]: "silent (save_and_report df name w) = save_05 df name (silent w)"
  by (cases df) (simp_all add: save_and_report_def save_05_def Let_def)

lemma download_1_silent: "download_1_05 srv (silent w) = silently (download_1 srv w)"
  by (cases "download_dataset srv API_KEY ''170'' ''156'' 1992 2023 ''M'' ''AG6''
               (print ''[1/4] Colombia imports from China (HS6)...'' [] w)")
     (use download_dataset_silent[of srv API_KEY "''170''" "''156''" 1992 2023 "''M''" "''AG6''"
            "print ''[1/4] Colombia imports from China (HS6)...'' [] w"]
       in \<open>auto simp: download_1_05_def download_1_def download_dataset_05_eq Let_def\<close>)

lemma download_2_silent: "download_2_05 srv (silent w) = silently (download_2 srv w)"
  by (cases "download_dataset srv API_KEY ''170'' ''0'' 1992 2023 ''M'' ''AG6''
               (print ''[2/4] Colombia imports from World (HS6)...'' [] w)")
     (use download_dataset_silent[of srv API_KEY "''170''" "''0''" 1992 2023 "''M''" "''AG6''"
            "print ''[2/4] Colombia imports from World (HS6)...'' [] w"]
       in \<open>auto simp: download_2_05_def download_2_def download_dataset_05_eq Let_def\<close>)

lemma download_3_silent: "download_3_05 srv (silent w) = silently (download_3 srv w)"
  by (cases "download_dataset srv API_KEY ''170'' ''0'' 1992 2023 ''X'' ''AG6''
               (print ''[3/4] Colombia exports to World (HS6)...'' [] w)")
     (use download_dataset_silent[of srv API_KEY "''170''" "''0''" 1992 2023 "''X''" "''AG6''"
            "print ''[3/4] Colombia exports to World (HS6)...'' [] w"]
       in \<open>auto simp: download_3_05_def download_3_def download_dataset_05_eq Let_def\<close>)

lemma download_4_silent: "download_4_05 srv (silent w) = silently (download_4 srv w)"
proof -
  let ?names = "[''Chile'', ''Peru'', ''Brazil'', ''Argentina'', ''Ecuador'']"
  let ?w = "print ''[4/4] China exports to LAC countries (HS6)...'' [] w"
  have loop: "lac_loop srv ?names [] (silent w) = silently (lac_loop srv ?names [] ?w)"
    using lac_loop_silent[of srv ?names "[]" ?w] by simp
  show ?thesis
  proof (cases "lac_loop srv ?names [] ?w")
    case None
    with loop show ?thesis
      by (simp add: download_4_05_def download_4_def lac_loop_05_eq Let_def
            del: lac_loop.simps)
  next
    case (Some rw)
    obtain res w1 where rw: "rw = (res, w1)" by (cases rw)
    show ?thesis
      using loop Some rw
      by (cases res)
         (simp_all add: download_4_05_def download_4_def lac_loop_05_eq Let_def
            del: lac_loop.simps)
  qed
qed

lemma and_then_silent:
  assumes "m' = silently m" and "\<And>w. k' (silent w) = silently (k w)"
  shows "and_then m' k' = silently (and_then m k)"
proof (cases m)
  case None
  with assms(1) show ?thesis by simp
next
  case (Some ew)
  obtain e w where "ew = (e, w)" by (cases ew)
  with Some assms show ?thesis by (cases e) simp_all
qed

lemma report_end_silent [simp]: "silent (report_end w) = silent w"
  by (simp add: report_end_def)

lemma main_silent: "main_05 srv (silent w) = silently (main srv w)"
  unfolding main_05_def main_def
proof (rule and_then_silent)
  show "download_1_05 srv (silent w) =
          silently (download_1 srv (print ''Comtrade download started: {start_time}'' [] w))"
    using download_1_silent[of srv "print ''Comtrade download started: {start_time}'' [] w"]
    by simp
next
  fix w1
  show "and_then (download_2_05 srv (silent w1))
          (\<lambda>w2. if near_limit w2 then Some (Some (SysExit 0), w2)
                 else and_then (download_3_05 srv w2)
                        (\<lambda>w3. and_then (download_4_05 srv w3) (\<lambda>w4. Some (None, w4)))) =
        silently (and_then (download_2 srv w1)
          (\<lambda>w2. if near_limit w2
                 then Some (Some (SysExit 0),
                        print ''Approaching daily limit. Exports pending for tomorrow.'' [] w2)
                 else and_then (download_3 srv w2)
                        (\<lambda>w3. and_then (download_4 srv w3) (\<lambda>w4. Some (None, report_end w4)))))"
  proof (rule and_then_silent[OF download_2_silent])
    fix w2
    show "(if near_limit (silent w2) then Some (Some (SysExit 0), silent w2)
           else and_then (download_3_05 srv (silent w2))
                  (\<lambda>w3. and_then (download_4_05 srv w3) (\<lambda>w4. Some (None, w4)))) =
          silently (if near_limit w2
                 then Some (Some (SysExit 0),
                        print ''Approaching daily limit. Exports pending for tomorrow.'' [] w2)
                 else and_then (download_3 srv w2)
                        (\<lambda>w3. and_then (download_4 srv w3) (\<lambda>w4. Some (None, report_end w4))))"
    proof (cases "near_limit w2")
      case True
      then show ?thesis by simp
    next
      case False
      have "and_then (download_3_05 srv (silent w2))
                  (\<lambda>w3. and_then (download_4_05 srv w3) (\<lambda>w4. Some (None, w4))) =
            silently (and_then (download_3 srv w2)
                        (\<lambda>w3. and_then (download_4 srv w3) (\<lambda>w4. Some (None, report_end w4))))"
      proof (rule and_then_silent[OF download_3_silent])
        fix w3
        show "and_then (download_4_05 srv (silent w3)) (\<lambda>w4. Some (None, w4)) =
              silently (and_then (download_4 srv w3) (\<lambda>w4. Some (None, report_end w4)))"
          by (rule and_then_silent[OF download_4_silent]) simp
      qed
      with False show ?thesis by simp
    qed
  qed
qed

subsection \<open>Files written\<close>

lemma no_empty_file_simps [simp]:
  "no_empty_file []"
  "no_empty_file (es @ es') \<longleftrightarrow> no_empty_file es \<and> no_empty_file es'"
  "no_empty_file (e # es) \<longleftrightarrow> (\<forall>name. e \<noteq> ToCsv name []) \<and> no_empty_file es"
  by (auto simp: no_empty_file_def)


lemma no_empty_file_effects [simp]:
  "no_empty_file (trace (print line vals w)) = no_empty_file (trace w)"
  "no_empty_file (trace (time_sleep secs w)) = no_empty_file (trace w)"
  "no_empty_file (trace (to_csv d name w)) = (d \<noteq> [] \<and> no_empty_file (trace w))"
  by (auto simp: print_def time_sleep_def to_csv_def)













lemma gate_download_1_05:
  "download_1_05 throttled_449 initial_world = Some (None, silent gate_run_1)"
proof -
  have "silent (print ''Comtrade download started: {start_time}'' [] initial_world) = initial_world"
    by (simp add: silent_def initial_world_def print_def)
  with download_1_silent[of throttled_449
         "print ''Comtrade download started: {start_time}'' [] initial_world"]
  show ?thesis by (simp add: gate_download_1)
qed

lemma gate_download_2_05:
  "download_2_05 throttled_449 (silent gate_run_1) = Some (None, silent gate_run_2)"
  by (simp add: download_2_silent gate_download_2)


subsection \<open>Runs of the partner loop\<close>



section \<open>Properties of the specification\<close>

text \<open>
  C1. One fetch, and one dataset run, move \<^verbatim>\<open>call_counter\<close> by exactly the number of
  round-trips in which \<^verbatim>\<open>requests.get\<close> returned a response, whatever its status and
  whether or not its body parses: that is the number of round-trips attempted less those
  in which \<^verbatim>\<open>requests.get\<close> raised, which the counter does not see.
\<close>

theorem counter_counts_responses:
  assumes "download_year srv k r p y f c w = Some (df, w')"
    and "download_dataset srv' k' r' p' start_year end_year f' c' v = Some (df', v')"
  shows "(\<exists>new. trace w' = trace w @ new
            \<and> call_counter w' = call_counter w + int (received new)
            \<and> call_counter w' + int (raised new) = call_counter w + int (length (sent new)))
         \<and> (\<exists>new. trace v' = trace v @ new
            \<and> call_counter v' = call_counter v + int (received new)
            \<and> call_counter v' + int (raised new) = call_counter v + int (length (sent new)))"
  using download_year_counter[OF assms(1)] download_dataset_counter[OF assms(2)]
  by (rule conjI)

theorem counter_counts_responses_witness:
  "download_year throttled_then_down API_KEY ''170'' ''156'' 1992 ''M'' ''AG6'' initial_world =
     Some (None, down_run)
   \<and> download_dataset barren_service API_KEY ''170'' ''156'' 1992 1994 ''M'' ''AG6''
       initial_world = Some (None, barren_run)
   \<and> (\<exists>new. trace down_run = trace initial_world @ new
          \<and> call_counter down_run = call_counter initial_world + int (received new)
          \<and> call_counter down_run + int (raised new) =
              call_counter initial_world + int (length (sent new)))
   \<and> (\<exists>new. trace barren_run = trace initial_world @ new
          \<and> call_counter barren_run = call_counter initial_world + int (received new)
          \<and> call_counter barren_run + int (raised new) =
              call_counter initial_world + int (length (sent new)))"
  using counter_counts_responses[OF run_throttled_then_down run_barren_service]
    run_throttled_then_down run_barren_service
  by blast

text \<open>
  A service that cannot be reached: one round-trip is attempted and the counter stays at 0.
\<close>

theorem counter_misses_raised_attempt:
  "download_year unreachable_service API_KEY ''170'' ''156'' 1992 ''M'' ''AG6'' initial_world =
     Some (None, \<lparr>call_counter = 0, trace = [HttpGet china_1992 Raises]\<rparr>)
   \<and> length (sent [HttpGet china_1992 Raises]) = 1"
  by (simp add: download_year_Raises unreachable_service_def initial_world_def china_1992_def)

text \<open>
  C2. In both files \<^verbatim>\<open>main\<close> runs the four datasets in the written order and tests the
  quota once, after the second run and not after the first: if the test holds there the
  process exits with status 0 and nothing of the third and fourth datasets is fetched or
  written; if not, the third and the fourth run follow.
\<close>

theorem quota_gate_after_second_run:
  assumes "download_1 srv (print ''Comtrade download started: {start_time}'' [] w0) = Some (None, w1)"
    and "download_2 srv w1 = Some (None, w2)"
    and "download_1_05 srv v0 = Some (None, v1)"
    and "download_2_05 srv v1 = Some (None, v2)"
  shows "main srv w0 =
           (if near_limit w2 then
              Some (Some (SysExit 0),
                    print ''Approaching daily limit. Exports pending for tomorrow.'' [] w2)
            else
              and_then (download_3 srv w2) (\<lambda>w3.
              and_then (download_4 srv w3) (\<lambda>w4.
                Some (None, report_end w4))))
         \<and> main_05 srv v0 =
           (if near_limit v2 then Some (Some (SysExit 0), v2)
            else
              and_then (download_3_05 srv v2) (\<lambda>w3.
              and_then (download_4_05 srv w3) (\<lambda>w4.
                Some (None, w4))))"
  using main_after_imports[OF assms(1,2)] main_05_after_imports[OF assms(3,4)]
  by (rule conjI)

theorem quota_gate_after_second_run_witness:
  "main throttled_449 initial_world = Some (Some (SysExit 0), gate_exit)
   \<and> main_05 throttled_449 initial_world = Some (Some (SysExit 0), silent gate_run_2)"
proof -
  have exit: "print ''Approaching daily limit. Exports pending for tomorrow.'' [] gate_run_2
                = gate_exit"
    by (simp add: gate_exit_def print_def gate_run_2_def)
  from quota_gate_after_second_run[OF gate_download_1 gate_download_2
         gate_download_1_05 gate_download_2_05]
  show ?thesis
    by (simp add: gate_near_limit exit)
qed

text \<open>
  A service that throttles the first 449 requests: the counter is at 450 after the first
  run, and the second dataset is fetched and written all the same.
\<close>

theorem second_run_not_gated:
  "download_1 throttled_449 (print ''Comtrade download started: {start_time}'' [] initial_world)
     = Some (None, gate_run_1)
   \<and> near_limit gate_run_1
   \<and> main throttled_449 initial_world = Some (Some (SysExit 0), gate_exit)
   \<and> HttpGet world_1992 (Response 200 (Json (Some sample_rows))) \<in> set (trace gate_exit)
   \<and> ToCsv ''colombia_imports_from_world_HS6.csv'' sample_rows \<in> set (trace gate_exit)"
  by (simp add: gate_download_1 gate_near_limit gate_main)
     (simp add: gate_exit_def gate_run_2_def)



text \<open>
  C4. When the near-limit test holds after the attempt of a year and its pacing wait, the
  run over the range ends there: it returns the frames gathered so far, its final state
  is the state after that wait, and no request for a later year has been sent.
\<close>

theorem quota_stops_iteration:
  assumes "start_year \<le> year" and "year \<le> end_year"
    and "dataset_loop srv k r p f c [start_year..year - 1] [] w = Some (gathered, wm)"
    and "start_year < year \<longrightarrow> \<not> near_limit wm"
    and "download_year srv k r p year f c wm = Some (df, w1)"
    and "near_limit (time_sleep (3 / 2) w1)"
  shows "download_dataset srv k r p start_year end_year f c w =
           Some (if add_frame gathered df \<noteq> [] then Some (pd_concat (add_frame gathered df))
                 else None,
                 time_sleep (3 / 2) w1)
         \<and> (\<exists>new. trace (time_sleep (3 / 2) w1) = trace w @ new
                \<and> (\<forall>rq \<in> set (sent new). period rq \<le> year))"
proof -
  have split: "[start_year..end_year] = [start_year..year - 1] @ year # [year + 1..end_year]"
    using assms(1,2) by (rule upto_split3)
  have nonempty: "[start_year..year - 1] \<noteq> [] \<longrightarrow> \<not> near_limit wm"
    using assms(4) by auto
  have loop: "dataset_loop srv k r p f c [start_year..end_year] [] w =
                Some (add_frame gathered df, time_sleep (3 / 2) w1)"
    unfolding split dataset_loop_append[OF assms(3) nonempty]
    using assms(5,6) by (simp add: dataset_loop_Cons del: dataset_loop.simps)
  from dataset_loop_run[OF assms(3)] obtain n1 where n1:
    "trace wm = trace w @ n1" "\<forall>rq \<in> set (sent n1). period rq \<in> set [start_year..year - 1]"
    by blast
  from download_year_run[OF assms(5)] obtain n2 where n2:
    "trace w1 = trace wm @ n2" "fetch_of (params_of k r p year f c) n2"
    by auto
  have "\<forall>rq \<in> set (sent n2). period rq = year"
    using fetch_of_sent[OF n2(2)] by auto
  with n1 n2 have "trace (time_sleep (3 / 2) w1) = trace w @ (n1 @ n2 @ [Sleep (3 / 2)])
      \<and> (\<forall>rq \<in> set (sent (n1 @ n2 @ [Sleep (3 / 2)])). period rq \<le> year)"
    by (auto simp: time_sleep_def)
  then have "\<exists>new. trace (time_sleep (3 / 2) w1) = trace w @ new
                \<and> (\<forall>rq \<in> set (sent new). period rq \<le> year)"
    by blast
  with loop show ?thesis
    by (simp add: download_dataset_def)
qed

theorem quota_stops_iteration_witness:
  "download_dataset always_rows API_KEY ''170'' ''156'' 1992 1996 ''M'' ''AG6'' nearly_spent =
     Some (Some (sample_rows @ sample_rows),
           \<lparr>call_counter = 450,
            trace = [HttpGet (china_year 1992) (Response 200 (Json (Some sample_rows))),
                     Sleep (3 / 2),
                     HttpGet (china_year 1993) (Response 200 (Json (Some sample_rows))),
                     Sleep (3 / 2)]\<rparr>)"
proof -
  let ?wm = "\<lparr>call_counter = 449,
              trace = [HttpGet (china_year 1992) (Response 200 (Json (Some sample_rows))),
                       Sleep (3 / 2)]\<rparr>"
  let ?w1 = "\<lparr>call_counter = 450,
              trace = [HttpGet (china_year 1992) (Response 200 (Json (Some sample_rows))),
                       Sleep (3 / 2),
                       HttpGet (china_year 1993) (Response 200 (Json (Some sample_rows)))]\<rparr>"
  have a: "dataset_loop always_rows API_KEY ''170'' ''156'' ''M'' ''AG6'' [1992..1993 - 1] []
             nearly_spent = Some ([sample_rows], ?wm)"
    by (simp add: download_year_200 always_rows_def nearly_spent_def sample_rows_def
          time_sleep_def near_limit_def max_calls_def)
  have b: "(1992::int) < 1993 \<longrightarrow> \<not> near_limit ?wm"
    by (simp add: near_limit_def max_calls_def)
  have c: "download_year always_rows API_KEY ''170'' ''156'' 1993 ''M'' ''AG6'' ?wm =
             Some (Some sample_rows, ?w1)"
    by (simp add: download_year_200 always_rows_def sample_rows_def)
  have d: "near_limit (time_sleep (3 / 2) ?w1)"
    by (simp add: near_limit_def max_calls_def time_sleep_def)
  from quota_stops_iteration[OF _ _ a b c d, of 1996] show ?thesis
    by (simp add: add_frame_def pd_concat_def time_sleep_def)
qed

text \<open>
  C5. The near-limit test holds exactly when the counter is at least
  \<open>max_calls - 50\<close>; with \<open>max_calls = 500\<close> it fails at 449 and holds at 450.
\<close>

theorem near_limit_threshold:
  "near_limit w = (call_counter w \<ge> max_calls - 50)
   \<and> max_calls = 500
   \<and> \<not> near_limit (w\<lparr>call_counter := 449\<rparr>)
   \<and> near_limit (w\<lparr>call_counter := 450\<rparr>)"
  by (simp add: near_limit_def max_calls_def)







text \<open>
  C9. The functions \<^verbatim>\<open>download_year\<close> and \<^verbatim>\<open>download_dataset\<close> of the two files
  are equal, and \<^verbatim>\<open>main\<close> of the second file does what \<^verbatim>\<open>main\<close> of the first does
  with its printed lines erased.
\<close>

theorem entry_points_agree:
  "download_year_05 srv k r p y f c w = download_year srv k r p y f c w
   \<and> download_dataset_05 srv k r p start_year end_year f c w =
       download_dataset srv k r p start_year end_year f c w
   \<and> main_05 srv (silent w) = silently (main srv w)
   \<and> main_05 srv initial_world = silently (main srv initial_world)"
proof -
  have "silent initial_world = initial_world"
    by (simp add: silent_def initial_world_def)
  with main_silent[of srv initial_world]
  have "main_05 srv initial_world = silently (main srv initial_world)" by simp
  then show ?thesis
    by (simp add: download_year_05_eq download_dataset_05_eq main_silent)
qed



end
